theory Spec2Isabelle
  imports Main
begin

section \<open>Exceptions\<close>

text \<open>
  The C++ exceptions the sources throw, each with its message. The class
  \<open>StonePositionitionOccupiedException\<close> is declared in \<open>Contest\<close> (a subclass of
  \<open>std::logic_error\<close>); the others are the standard ones. Logging (\<open>log.hpp\<close>) is an
  external collaborator and is not part of the model.
\<close>

datatype exn =
    invalid_argument string
  | out_of_range string
  | logic_error string
  | StonePositionitionOccupiedException string

section \<open>rule.hpp: conversions\<close>

text \<open>
  \<open>stoi_base<int>\<close> calls \<open>std::from_chars\<close> on the whole view: an optional minus
  sign, then the longest run of decimal digits; no digit is \<open>invalid_argument\<close>, a value
  outside the 32-bit \<open>int\<close> is \<open>result_out_of_range\<close>. Characters after the digits are
  ignored.
\<close>

definition is_digit :: "char \<Rightarrow> bool" where
  "is_digit c = (48 \<le> (of_char c :: nat) \<and> (of_char c :: nat) \<le> 57)"

definition digits_value :: "string \<Rightarrow> int" where
  "digits_value ds = foldl (\<lambda>acc c. acc * 10 + (int (of_char c) - 48)) 0 ds"

definition stoi :: "string \<Rightarrow> exn + int" where
  "stoi str =
     (let neg = (case str of [] \<Rightarrow> False | c # cs \<Rightarrow> c = CHR ''-'');
          body = (if neg then tl str else str);
          ds = takeWhile is_digit body
      in if ds = [] then Inl (invalid_argument ''no conversion'')
         else let v = (if neg then - digits_value ds else digits_value ds)
              in if v < - (2 ^ 31) \<or> 2 ^ 31 \<le> v then Inl (out_of_range ''out of range'')
                 else Inr v)"

text \<open>\<open>std::to_string(int)\<close>: the decimal digits, with a minus sign for a negative value.\<close>

fun digits_of :: "nat \<Rightarrow> string" where
  "digits_of n =
     (if n < 10 then [char_of (48 + n)]
      else digits_of (n div 10) @ [char_of (48 + n mod 10)])"

declare digits_of.simps [simp del]

definition int_to_string :: "int \<Rightarrow> string" where
  "int_to_string i = (if i < 0 then CHR ''-'' # digits_of (nat (- i)) else digits_of (nat i))"

section \<open>rule.hpp: Position\<close>

text \<open>
  \<open>rank_n\<close> is the board size. A \<open>Position\<close> holds two C++ \<open>int\<close>s; they are modelled as
  unbounded integers, since every coordinate the board engine handles is within one step
  of the board and no arithmetic on them can overflow there. The default position is
  \<open>(-1, -1)\<close>.
\<close>

definition rank_n :: int where
  "rank_n = 9"

record Position =
  x :: int
  y :: int

definition Position_init :: Position where
  "Position_init = \<lparr>x = - 1, y = - 1\<rparr>"

definition Position_plus :: "Position \<Rightarrow> Position \<Rightarrow> Position" where
  "Position_plus p q = \<lparr>x = x p + x q, y = y p + y q\<rparr>"

text \<open>\<open>explicit operator bool\<close> of \<open>Position\<close>.\<close>

definition Position_bool :: "Position \<Rightarrow> bool" where
  "Position_bool p = (x p \<ge> 0 \<and> y p \<ge> 0)"

text \<open>
  \<open>Position::to_string\<close>: the character \<open>'A' + x\<close> (converted to \<open>char\<close>, modulo 256),
  followed by the decimal \<open>y + 1\<close>.
\<close>

definition Position_to_string :: "Position \<Rightarrow> string" where
  "Position_to_string p = [char_of (65 + x p)] @ int_to_string (y p + 1)"

text \<open>
  \<open>Position(std::string_view)\<close>: \<open>str[0] - 'A'\<close> and \<open>stoi(str.substr(1)) - 1\<close>. On the
  empty view \<open>substr(1)\<close> throws \<open>std::out_of_range\<close>. The first character is read as an
  unsigned byte (plain \<open>char\<close> may be signed; both readings agree on ASCII).
\<close>

definition Position_of_string :: "string \<Rightarrow> exn + Position" where
  "Position_of_string str =
     (case str of
        [] \<Rightarrow> Inl (out_of_range ''basic_string_view::substr'')
      | c # cs \<Rightarrow>
          (case stoi cs of
             Inl e \<Rightarrow> Inl e
           | Inr v \<Rightarrow> Inr \<lparr>x = int (of_char c) - 65, y = v - 1\<rparr>))"

section \<open>contest.hpp: the kinds of result\<close>

text \<open>
  \<open>Contest::Status\<close> and \<open>Contest::WinType\<close>. \<open>WinType\<close> has an enumerator \<open>NONE\<close>, as
  \<open>Role\<close> has a constant \<open>NONE\<close>; below, the plain name \<open>NONE\<close> is the role and the win
  type is written \<open>WinType.NONE\<close>.
\<close>

datatype Status = NOT_PREPARED | ON_GOING | GAME_OVER

datatype WinType = NONE | TIMEOUT | SUICIDE | GIVEUP

section \<open>rule.hpp: Role\<close>

text \<open>
  \<open>Role\<close> wraps an \<open>int id\<close> whose only constructor from \<open>int\<close> is private: the values
  that exist are \<open>BLACK\<close> (1), \<open>WHITE\<close> (-1) and \<open>NONE\<close> (0), and the class is closed
  under negation.
\<close>

datatype Role = BLACK | WHITE | NONE

definition Role_id :: "Role \<Rightarrow> int" where
  "Role_id r = (case r of BLACK \<Rightarrow> 1 | WHITE \<Rightarrow> - 1 | NONE \<Rightarrow> 0)"

instantiation Role :: uminus
begin

definition uminus_Role :: "Role \<Rightarrow> Role" where
  "uminus_Role r = (case r of BLACK \<Rightarrow> WHITE | WHITE \<Rightarrow> BLACK | NONE \<Rightarrow> NONE)"

instance ..

end

text \<open>\<open>explicit operator bool\<close> of \<open>Role\<close>: \<open>id\<close> is not zero.\<close>

definition Role_bool :: "Role \<Rightarrow> bool" where
  "Role_bool r = (Role_id r \<noteq> 0)"

definition Role_of_string :: "string \<Rightarrow> Role" where
  "Role_of_string str = (if str = ''b'' then BLACK else if str = ''w'' then WHITE else NONE)"

definition Role_to_string :: "Role \<Rightarrow> string" where
  "Role_to_string r = (case r of BLACK \<Rightarrow> ''BLACK'' | WHITE \<Rightarrow> ''WHITE'' | NONE \<Rightarrow> ''NONE'')"

section \<open>rule.hpp: Board\<close>

text \<open>
  \<open>std::array<Role, rank_n * rank_n>\<close>: exactly 81 roles. \<open>operator[]\<close> reads and
  writes \<open>arr[p.x * rank_n + p.y]\<close> without a bounds check; the access is defined in the
  source only for an index within the array, which holds for every position inside the
  border. A default-constructed board holds \<open>Role()\<close>, that is \<open>NONE\<close>, everywhere.
\<close>

typedef Board = "{xs :: Role list. length xs = 81}"
  morphisms arr Abs_Board
  by (rule exI [of _ "replicate 81 NONE"]) simp

setup_lifting type_definition_Board

instantiation Board :: equal
begin

definition equal_Board :: "Board \<Rightarrow> Board \<Rightarrow> bool" where
  "equal_Board a b = (arr a = arr b)"

instance
  by standard (simp add: equal_Board_def arr_inject)

end

definition index_of :: "Position \<Rightarrow> nat" where
  "index_of p = nat (x p * rank_n + y p)"

lift_definition board_at :: "Board \<Rightarrow> Position \<Rightarrow> Role" is
  "\<lambda>xs p. xs ! index_of p" .

lift_definition board_set :: "Board \<Rightarrow> Position \<Rightarrow> Role \<Rightarrow> Board" is
  "\<lambda>xs p r. xs[index_of p := r]"
  by simp

lift_definition Board_init :: Board is "replicate 81 NONE"
  by simp

definition in_border :: "Position \<Rightarrow> bool" where
  "in_border p = (x p \<ge> 0 \<and> y p \<ge> 0 \<and> x p < rank_n \<and> y p < rank_n)"

definition delta :: "Position list" where
  "delta = [\<lparr>x = - 1, y = 0\<rparr>, \<lparr>x = 1, y = 0\<rparr>, \<lparr>x = 0, y = - 1\<rparr>, \<lparr>x = 0, y = 1\<rparr>]"

definition neighbor :: "Position \<Rightarrow> Position list" where
  "neighbor p = filter in_border (map (\<lambda>d. Position_plus p d) delta)"

text \<open>\<open>Board::index\<close>: every position of the board, row by row.\<close>

definition index :: "Position list" where
  "index = concat (map (\<lambda>i. map (\<lambda>j. \<lparr>x = i, y = j\<rparr>) [0..rank_n - 1]) [0..rank_n - 1])"

text \<open>
  \<open>Board::_liberties(p, visit)\<close> marks \<open>p\<close> in \<open>visit\<close> (a second board, shared by
  reference through the whole search), answers true when a neighbour of \<open>p\<close> is empty
  (\<open>!self[n]\<close>: the role there is \<open>NONE\<close>),
  and otherwise searches, in order, the neighbours that are unmarked and hold the role
  of \<open>p\<close>, stopping at the first that answers true. \<open>liberties_rec\<close> is that function
  with the board \<open>visit\<close> passed in and returned; \<open>liberties_any\<close> is its second
  \<open>any_of\<close>, over the neighbours still to be tried.
\<close>

function liberties_rec :: "Board \<Rightarrow> Position \<Rightarrow> Board \<Rightarrow> bool \<times> Board"
  and liberties_any :: "Board \<Rightarrow> Position \<Rightarrow> Position list \<Rightarrow> Board \<Rightarrow> bool \<times> Board"
where
  "liberties_rec self p visit =
     (let visit' = board_set visit p BLACK
      in if list_ex (\<lambda>n. board_at self n = NONE) (neighbor p) then (True, visit')
         else liberties_any self p (neighbor p) visit')"
| "liberties_any self p [] visit = (False, visit)"
| "liberties_any self p (n # ns) visit =
     (if board_at visit n = NONE \<and> board_at self n = board_at self p then
        (case liberties_rec self n visit of
           (found, visit') \<Rightarrow>
             if found then (True, visit') else liberties_any self p ns visit')
      else liberties_any self p ns visit)"
  by pat_completeness auto

text \<open>
  Termination: every recursive search marks a cell of the border that was unmarked, and
  marks are never removed, so the number of unmarked cells of \<open>visit\<close> decreases.
\<close>

definition unvisited :: "Board \<Rightarrow> nat" where
  "unvisited visit = length (filter (\<lambda>r. r = NONE) (arr visit))"

lemma length_arr [simp]: "length (arr b) = 81"
  using arr [of b] by simp

lemma filter_NONE_update_le:
  "v \<noteq> NONE \<Longrightarrow>
   length (filter (\<lambda>r. r = NONE) (xs[i := v])) \<le> length (filter (\<lambda>r. r = NONE) xs)"
proof (induction xs arbitrary: i)
  case Nil
  then show ?case by simp
next
  case (Cons a xs)
  then show ?case by (cases i) (auto simp: le_SucI)
qed

lemma filter_NONE_update_less:
  "v \<noteq> NONE \<Longrightarrow> i < length xs \<Longrightarrow> xs ! i = NONE \<Longrightarrow>
   length (filter (\<lambda>r. r = NONE) (xs[i := v])) < length (filter (\<lambda>r. r = NONE) xs)"
proof (induction xs arbitrary: i)
  case Nil
  then show ?case by simp
next
  case (Cons a xs)
  show ?case
  proof (cases i)
    case 0
    with Cons.prems show ?thesis by simp
  next
    case (Suc j)
    with Cons.prems Cons.IH [of j] show ?thesis by auto
  qed
qed

lemma unvisited_mark_le: "unvisited (board_set visit p BLACK) \<le> unvisited visit"
  by (simp add: unvisited_def board_set.rep_eq filter_NONE_update_le)

lemma index_of_less: "in_border p \<Longrightarrow> index_of p < 81"
  by (auto simp: in_border_def index_of_def rank_n_def)

lemma unvisited_mark_less:
  "in_border p \<Longrightarrow> board_at visit p = NONE \<Longrightarrow>
   unvisited (board_set visit p BLACK) < unvisited visit"
  by (simp add: unvisited_def board_set.rep_eq board_at.rep_eq
      filter_NONE_update_less index_of_less)

lemma in_border_neighbor: "n \<in> set (neighbor p) \<Longrightarrow> in_border n"
  by (simp add: neighbor_def)

lemma liberties_dom_unvisited:
  "liberties_rec_liberties_any_dom (Inl (self, p, visit)) \<Longrightarrow>
     unvisited (snd (liberties_rec self p visit)) \<le> unvisited visit"
  "liberties_rec_liberties_any_dom (Inr (self, q, ns, visit)) \<Longrightarrow>
     unvisited (snd (liberties_any self q ns visit)) \<le> unvisited visit"
proof (induction self p visit and self q ns visit rule: liberties_rec_liberties_any.pinduct)
  case (1 self p visit)
  then show ?case
    using unvisited_mark_le [of visit p]
    by (auto simp: liberties_rec.psimps Let_def intro: order_trans)
next
  case (2 self p visit)
  then show ?case by (simp add: liberties_any.psimps)
next
  case (3 self p n ns visit)
  show ?case
  proof (cases "board_at visit n = NONE \<and> board_at self n = board_at self p")
    case False
    from 3(1) False
    have "liberties_any self p (n # ns) visit = liberties_any self p ns visit"
      by (subst liberties_any.psimps) (simp_all only: if_False)
    with 3(4) [OF False] show ?thesis by simp
  next
    case True
    obtain found visit' where r: "liberties_rec self n visit = (found, visit')"
      by (cases "liberties_rec self n visit")
    from 3(2) True r have a: "unvisited visit' \<le> unvisited visit" by simp
    show ?thesis
    proof (cases found)
      case True
      with \<open>board_at visit n = NONE \<and> board_at self n = board_at self p\<close> r a 3(1)
      show ?thesis by (simp add: liberties_any.psimps)
    next
      case False
      with 3(3) [of found visit'] True r
      have "unvisited (snd (liberties_any self p ns visit')) \<le> unvisited visit'"
        by simp
      with a False True r 3(1) show ?thesis by (simp add: liberties_any.psimps)
    qed
  qed
qed

termination liberties_rec
proof (relation "inv_image (less_than <*lex*> less_than <*lex*> less_than)
    (\<lambda>a. case a of
       Inl (self, p, visit) \<Rightarrow> (unvisited (board_set visit p BLACK), 1::nat, 0::nat)
     | Inr (self, p, ns, visit) \<Rightarrow>
         (unvisited visit + length (filter (\<lambda>n. \<not> in_border n) ns), 0, length ns))",
    goal_cases)
  case 1
  then show ?case by (intro wf_inv_image wf_lex_prod wf_less_than)
next
  case (2 self p visit v)
  have "filter (\<lambda>n. \<not> in_border n) (neighbor p) = []"
    by (simp add: neighbor_def)
  then show ?case using 2 by simp
next
  case (3 self p n ns visit)
  then show ?case
    using unvisited_mark_less [of n visit] unvisited_mark_le [of visit n]
    by (cases "in_border n") (auto simp: less_Suc_eq_le)
next
  case (4 self p n ns visit found visit')
  then have "unvisited visit' \<le> unvisited visit"
    using liberties_dom_unvisited(1) [of self n visit] by (metis snd_conv)
  then show ?case by (auto simp: less_Suc_eq_le)
next
  case (5 self p n ns visit)
  then show ?case by auto
qed

declare liberties_rec.simps [simp del] liberties_any.simps [simp del]

text \<open>\<open>Board::liberties\<close>: the search from \<open>p\<close> with a fresh, unmarked \<open>visit\<close>.\<close>

definition liberties :: "Board \<Rightarrow> Position \<Rightarrow> bool" where
  "liberties self p = fst (liberties_rec self p Board_init)"

text \<open>
  \<open>Board::is_capturing\<close>: the group of \<open>p\<close> has no liberty, or a neighbour holding the
  opposite role belongs to a group with no liberty.
\<close>

definition is_capturing :: "Board \<Rightarrow> Position \<Rightarrow> bool" where
  "is_capturing self p =
     (\<not> liberties self p
      \<or> list_ex (\<lambda>n. board_at self n = - board_at self p \<and> \<not> liberties self n) (neighbor p))"

section \<open>rule.hpp: State\<close>

record State =
  board :: Board
  role :: Role
  last_move :: Position

text \<open>\<open>State(Role role = Role::BLACK)\<close>: an empty board and no last move.\<close>

definition State_init :: "Role \<Rightarrow> State" where
  "State_init r = \<lparr>board = Board_init, role = r, last_move = Position_init\<rparr>"

definition next_state :: "State \<Rightarrow> Position \<Rightarrow> State" where
  "next_state s p =
     \<lparr>board = board_set (board s) p (State.role s), role = - State.role s, last_move = p\<rparr>"

definition available_actions :: "State \<Rightarrow> Position list" where
  "available_actions s =
     filter (\<lambda>pos. \<not> Role_bool (board_at (board s) pos)
                 \<and> \<not> is_capturing (board (next_state s pos)) pos) index"

definition is_over :: "State \<Rightarrow> Role" where
  "is_over s =
     (if Position_bool (last_move s) \<and> is_capturing (board s) (last_move s)
      then State.role s else NONE)"

section \<open>contest.hpp: Player and PlayerList\<close>

text \<open>
  A \<open>Participant_ptr\<close> is a shared pointer to a session: an address, or \<open>nullptr\<close>
  (\<open>None\<close>). Two pointers are equal when they are the same address.
\<close>

type_synonym addr = nat

type_synonym Participant_ptr = "addr option"

text \<open>
  Modelled from the spec: the enumeration \<open>PlayerType\<close> is declared in \<open>message.hpp\<close>,
  which is not among the sources; the spec names the two kinds of player, local human
  and remote human, and \<open>server.hpp\<close> uses these two enumerators.
\<close>

datatype PlayerType = LOCAL_HUMAN_PLAYER | REMOTE_HUMAN_PLAYER

text \<open>
  \<open>Player\<close> has a defaulted comparison: two players are equal when all four members
  are.
\<close>

record Player =
  participant :: Participant_ptr
  name :: string
  role :: Role
  type :: PlayerType

type_synonym PlayerList = "Player list"

text \<open>
  \<open>PlayerList::find\<close>: the first player that matches; a role of \<open>NONE\<close> and a null
  participant match every player.
\<close>

definition PlayerList_find :: "PlayerList \<Rightarrow> Role \<Rightarrow> Participant_ptr \<Rightarrow> Player option" where
  "PlayerList_find players r ptr =
     List.find (\<lambda>p. (\<not> Role_bool r \<or> Player.role p = r)
                   \<and> (ptr = None \<or> Player.participant p = ptr)) players"

definition PlayerList_at :: "PlayerList \<Rightarrow> Role \<Rightarrow> Participant_ptr \<Rightarrow> exn + Player" where
  "PlayerList_at players r ptr =
     (case PlayerList_find players r ptr of
        None \<Rightarrow> Inl (logic_error ''Player not found'')
      | Some p \<Rightarrow> Inr p)"

definition PlayerList_contains :: "PlayerList \<Rightarrow> Role \<Rightarrow> Participant_ptr \<Rightarrow> bool" where
  "PlayerList_contains players r ptr = (PlayerList_find players r ptr \<noteq> None)"

text \<open>
  \<open>PlayerList::insert\<close>. Every \<open>throw\<close> comes before the \<open>push_back\<close>, the only
  statement that changes the list; the result pairs the exception, if any, with the
  list as the call leaves it. The guessed role is written into the caller's \<open>player\<close>.
\<close>

definition PlayerList_insert :: "PlayerList \<Rightarrow> Player \<Rightarrow> exn option \<times> PlayerList" where
  "PlayerList_insert players player =
     (if player \<in> set players then
        (Some (logic_error ''Player already in list''), players)
      else
        (case (if Player.role player = NONE then
                 (if PlayerList_contains players BLACK None then
                    Inr (player\<lparr>Player.role := WHITE\<rparr>)
                  else if PlayerList_contains players WHITE None then
                    Inr (player\<lparr>Player.role := BLACK\<rparr>)
                  else Inl (logic_error ''No role for player''))
               else Inr player) of
           Inl e \<Rightarrow> (Some e, players)
         | Inr player' \<Rightarrow>
             if PlayerList_contains players (Player.role player') None then
               (Some (logic_error ''Role already occupied''), players)
             else (None, players @ [player'])))"

definition PlayerList_size :: "PlayerList \<Rightarrow> nat" where
  "PlayerList_size players = length players"

section \<open>contest.hpp: Contest\<close>

record GameResult =
  winner :: Role
  win_type :: WinType
  confirmed :: bool

text \<open>\<open>GameResult {}\<close>: every member value-initialised.\<close>

definition GameResult_init :: GameResult where
  "GameResult_init = \<lparr>winner = NONE, win_type = WinType.NONE, confirmed = False\<rparr>"

text \<open>
  The members of \<open>Contest\<close>. Time points and durations are numbers of clock ticks; an
  operation that reads \<open>system_clock::now()\<close> takes the reading as its argument \<open>now\<close>.
\<close>

record Contest =
  should_giveup :: bool
  current :: State
  moves :: "Position list"
  players :: PlayerList
  status :: Status
  result :: GameResult
  duration :: nat
  start_time :: nat
  end_time :: nat
  local_role :: Role

text \<open>
  Each operation returns the exception it throws, if any, with the contest as the call
  leaves it: a \<open>throw\<close> keeps whatever the statements before it have changed.
\<close>

definition clear :: "Contest \<Rightarrow> Contest" where
  "clear c =
     c\<lparr>current := State_init BLACK, moves := [], players := [], status := NOT_PREPARED,
       result := GameResult_init, should_giveup := False, local_role := NONE\<rparr>"

definition confirm :: "Contest \<Rightarrow> Contest" where
  "confirm c = c\<lparr>result := (result c)\<lparr>confirmed := True\<rparr>\<rparr>"

definition reject :: "Contest \<Rightarrow> exn option \<times> Contest" where
  "reject c =
     (if status c \<noteq> NOT_PREPARED then (Some (logic_error ''Contest already started''), c)
      else (None, c\<lparr>players := []\<rparr>))"

definition enroll :: "nat \<Rightarrow> Contest \<Rightarrow> Player \<Rightarrow> exn option \<times> Contest" where
  "enroll now c player =
     (if status c \<noteq> NOT_PREPARED then (Some (logic_error ''Contest already started''), c)
      else
        (case PlayerList_insert (players c) player of
           (Some e, ps) \<Rightarrow> (Some e, c\<lparr>players := ps\<rparr>)
         | (None, ps) \<Rightarrow>
             if PlayerList_contains ps BLACK None \<and> PlayerList_contains ps WHITE None then
               (None, c\<lparr>players := ps, status := ON_GOING, start_time := now\<rparr>)
             else (None, c\<lparr>players := ps\<rparr>)))"

definition play :: "nat \<Rightarrow> Contest \<Rightarrow> Player \<Rightarrow> Position \<Rightarrow> exn option \<times> Contest" where
  "play now c player pos =
     (if status c \<noteq> ON_GOING then (Some (logic_error ''Contest not started''), c)
      else if State.role (current c) \<noteq> Player.role player then
        (Some (logic_error (name player @ '' not allowed to play'')), c)
      else if Role_bool (board_at (board (current c)) pos) then
        (Some (StonePositionitionOccupiedException ''Stone positionition occupied''), c)
      else
        (let c1 = c\<lparr>current := next_state (current c) pos, moves := moves c @ [pos]\<rparr>;
             winner = is_over (current c1);
             c2 = (if Role_bool winner then
                     c1\<lparr>status := GAME_OVER,
                        result := \<lparr>winner = winner, win_type = SUICIDE, confirmed = False\<rparr>,
                        end_time := now\<rparr>
                   else c1);
             c3 = (if available_actions (current c2) = [] then c2\<lparr>should_giveup := True\<rparr>
                   else c2)
         in (None, c3)))"

definition concede :: "nat \<Rightarrow> Contest \<Rightarrow> Player \<Rightarrow> exn option \<times> Contest" where
  "concede now c player =
     (if status c \<noteq> ON_GOING then (Some (logic_error ''Contest not started''), c)
      else
        (case PlayerList_at (players c) (State.role (current c)) None of
           Inl e \<Rightarrow> (Some e, c)
         | Inr p \<Rightarrow>
             if p \<noteq> player then
               (Some (logic_error (name player @ '' not allowed to concede'')), c)
             else
               (None, c\<lparr>status := GAME_OVER,
                        result := \<lparr>winner = - Player.role player, win_type = GIVEUP,
                                   confirmed = False\<rparr>,
                        end_time := now\<rparr>)))"

definition timeout :: "nat \<Rightarrow> Contest \<Rightarrow> Player \<Rightarrow> exn option \<times> Contest" where
  "timeout now c player =
     (if status c \<noteq> ON_GOING then (Some (logic_error ''Contest not started''), c)
      else
        (case PlayerList_at (players c) (State.role (current c)) None of
           Inl e \<Rightarrow> (Some e, c)
         | Inr p \<Rightarrow>
             if p \<noteq> player then
               (Some (logic_error (''not in '' @ name player @ [CHR 0x27] @ ''s turn'')), c)
             else
               (None, c\<lparr>status := GAME_OVER,
                        result := \<lparr>winner = - Player.role player, win_type = TIMEOUT,
                                   confirmed = False\<rparr>,
                        end_time := now\<rparr>)))"

definition round :: "Contest \<Rightarrow> int" where
  "round c = int (length (moves c))"

section \<open>server.hpp: Room and Session\<close>

text \<open>
  Modelled from the spec: \<open>Message\<close> and \<open>OpCode\<close> are declared in \<open>message.hpp\<close>, which
  is not among the sources. A message is an operation code and two strings; the codes
  are the ones \<open>Room::process_data\<close> switches on. \<open>Message {op}\<close> leaves both strings
  empty.
\<close>

datatype OpCode =
    UPDATE_UI_STATE_OP
  | START_LOCAL_GAME_OP
  | LOCAL_GAME_TIMEOUT_OP
  | READY_OP
  | REJECT_OP
  | MOVE_OP
  | GIVEUP_OP
  | TIMEOUT_END_OP
  | SUICIDE_END_OP
  | GIVEUP_END_OP
  | LEAVE_OP
  | CHAT_OP

record Message =
  op :: OpCode
  data1 :: string
  data2 :: string

definition Message_op :: "OpCode \<Rightarrow> Message" where
  "Message_op c = \<lparr>op = c, data1 = [], data2 = []\<rparr>"

text \<open>
  A \<open>Session\<close>: whether it is local, whether its socket is open, and the queue
  \<open>write_msgs_\<close> that \<open>deliver\<close> appends to and the writer drains.
\<close>

record Session =
  is_local :: bool
  socket_open :: bool
  write_msgs :: "Message list"

text \<open>
  A \<open>Room\<close> (the members \<open>timer_\<close>, \<open>participants_\<close> and \<open>recent_msgs_\<close> without
  their trailing underscore): its contest, the pending wait of \<open>timer\<close> (the opponent its handler
  would time out, or nothing), the \<open>std::set\<close> of joined participants in the order the
  set iterates, the recent messages, and the sessions the participants point to.
\<close>

record Room =
  contest :: Contest
  timer :: "Player option"
  participants :: "addr list"
  recent_msgs :: "Message list"
  sessions :: "addr \<Rightarrow> Session"

definition max_recent_msgs :: nat where
  "max_recent_msgs = 100"

text \<open>\<open>while (recent_msgs_.size() > max_recent_msgs) recent_msgs_.pop_front();\<close>\<close>

fun pop_excess :: "Message list \<Rightarrow> Message list" where
  "pop_excess ms = (if length ms > max_recent_msgs then pop_excess (tl ms) else ms)"

declare pop_excess.simps [simp del]

text \<open>\<open>Session::deliver\<close>, on the session at an address of the room.\<close>

definition Session_deliver :: "Room \<Rightarrow> addr \<Rightarrow> Message \<Rightarrow> Room" where
  "Session_deliver room a msg =
     room\<lparr>sessions := (sessions room)
       (a := (sessions room a)\<lparr>write_msgs := write_msgs (sessions room a) @ [msg]\<rparr>)\<rparr>"

text \<open>
  \<open>deliver\<close> through a \<open>Participant_ptr\<close>; the players the room makes never hold a null
  one, and nothing is delivered through it here.
\<close>

definition Participant_deliver :: "Room \<Rightarrow> Participant_ptr \<Rightarrow> Message \<Rightarrow> Room" where
  "Participant_deliver room ptr msg =
     (case ptr of None \<Rightarrow> room | Some a \<Rightarrow> Session_deliver room a msg)"

text \<open>
  \<open>Room::join\<close> inserts into the set and replays the recent messages to the new
  participant; \<open>Room::leave\<close> erases from the set.
\<close>

definition join :: "Room \<Rightarrow> addr \<Rightarrow> Room" where
  "join room a =
     fold (\<lambda>msg r. Session_deliver r a msg) (recent_msgs room)
       (room\<lparr>participants :=
          (if a \<in> set (participants room) then participants room
           else insort a (participants room))\<rparr>)"

definition leave :: "Room \<Rightarrow> addr \<Rightarrow> Room" where
  "leave room a =
     room\<lparr>participants := removeAll a (participants room)\<rparr>"

text \<open>
  \<open>Room::deliver(msg, participant)\<close>: for every joined \<open>p\<close> other than the
  participant, the message is delivered to the participant (\<open>sender\<close> here).
\<close>

definition deliver :: "Room \<Rightarrow> Message \<Rightarrow> addr \<Rightarrow> Room" where
  "deliver room msg sender =
     fold (\<lambda>p r. if p \<noteq> sender then Session_deliver r sender msg else r)
       (participants room)
       (room\<lparr>recent_msgs := pop_excess (recent_msgs room @ [msg])\<rparr>)"

text \<open>\<open>Session::stop\<close>: leave the room and close the socket.\<close>

definition stop :: "Room \<Rightarrow> addr \<Rightarrow> Room" where
  "stop room a =
     (let r = leave room a
      in r\<lparr>sessions := (sessions r)(a := (sessions r a)\<lparr>socket_open := False\<rparr>)\<rparr>)"

text \<open>
  \<open>std::stoull\<close> on the second field of a move: leading white space, an optional sign,
  then decimal digits; it throws when there is no digit or the value does not fit 64
  bits.
\<close>

definition is_space :: "char \<Rightarrow> bool" where
  "is_space c = ((of_char c :: nat) = 32 \<or> (9 \<le> (of_char c :: nat) \<and> (of_char c :: nat) \<le> 13))"

definition std_stoull :: "string \<Rightarrow> exn + nat" where
  "std_stoull str =
     (let s = dropWhile is_space str;
          neg = (case s of [] \<Rightarrow> False | c # cs \<Rightarrow> c = CHR ''-'');
          signed = (case s of [] \<Rightarrow> False | c # cs \<Rightarrow> c = CHR ''-'' \<or> c = CHR ''+'');
          ds = takeWhile is_digit (if signed then tl s else s)
      in if ds = [] then Inl (invalid_argument ''stoull'')
         else let v = nat (digits_value ds)
              in if 2 ^ 64 \<le> v then Inl (out_of_range ''stoull'')
                 else Inr (if neg then (2 ^ 64 - v) mod 2 ^ 64 else v))"

text \<open>
  \<open>data1[i]\<close> of a \<open>string_view\<close> over a \<open>std::string\<close>: the character, or the
  terminating zero just past the end.
\<close>

definition char_at :: "string \<Rightarrow> nat \<Rightarrow> char" where
  "char_at s i = (if i < length s then s ! i else char_of (0::nat))"

definition field_role :: "string \<Rightarrow> Role" where
  "field_role d = (if d = ''b'' then BLACK else if d = ''w'' then WHITE else NONE)"

text \<open>
  \<open>Room::process_data(msg, participant)\<close>; the participant, the session the message
  came from, is \<open>sender\<close> here. \<open>ui\<close> stands for the constructor \<open>UiMessage(contest)\<close> (the
  snapshot serializer, an external collaborator) and \<open>now\<close> for the clock. The result is
  the exception that leaves the function, if any, and the room as the call leaves it.
\<close>

definition deliver_ui :: "(Contest \<Rightarrow> Message) \<Rightarrow> Room \<Rightarrow> addr \<Rightarrow> Room" where
  "deliver_ui ui room sender =
     (if is_local (sessions room sender)
      then Session_deliver room sender (ui (contest room)) else room)"

definition process_move ::
  "(Contest \<Rightarrow> Message) \<Rightarrow> nat \<Rightarrow> Room \<Rightarrow> Message \<Rightarrow> addr \<Rightarrow> exn option \<times> Room" where
  "process_move ui now room msg sender =
     (let room1 = room\<lparr>timer := None\<rparr>;
          pos = \<lparr>x = int (of_char (char_at (data1 msg) 0)) - 65,
                 y = int (of_char (char_at (data1 msg) 1)) - 49\<rparr>
      in case std_stoull (data2 msg) of
           Inl e \<Rightarrow> (Some e, room1)
         | Inr ms \<Rightarrow>
        (case PlayerList_at (players (contest room1)) NONE (Some sender) of
           Inl e \<Rightarrow> (Some e, room1)
         | Inr player \<Rightarrow>
        (case PlayerList_at (players (contest room1)) (- Player.role player) None of
           Inl e \<Rightarrow> (Some e, room1)
         | Inr opponent \<Rightarrow>
        (case play now (contest room1) player pos of
           (Some e, c) \<Rightarrow> (Some e, room1\<lparr>contest := c\<rparr>)
         | (None, c) \<Rightarrow>
             (let room2 = deliver_ui ui (room1\<lparr>contest := c\<rparr>) sender;
                  room3 = room2\<lparr>timer := Some opponent\<rparr>
              in if winner (result c) = Player.role opponent then
                   (None, deliver (Session_deliver room3 sender (Message_op SUICIDE_END_OP))
                            msg sender)
                 else if winner (result c) = Player.role player then
                   (None, Participant_deliver
                            (Session_deliver room3 sender (Message_op GIVEUP_OP))
                            (Player.participant opponent) (Message_op GIVEUP_END_OP))
                 else (None, room3))))))"

definition process_data ::
  "(Contest \<Rightarrow> Message) \<Rightarrow> nat \<Rightarrow> Room \<Rightarrow> Message \<Rightarrow> addr \<Rightarrow> exn option \<times> Room" where
  "process_data ui now room msg sender =
     (case op msg of
        UPDATE_UI_STATE_OP \<Rightarrow> (None, room)
      | START_LOCAL_GAME_OP \<Rightarrow>
          (let c0 = (if status (contest room) = GAME_OVER then clear (contest room)
                     else contest room);
               player1 = \<lparr>participant = Some sender, name = ''BLACK'', role = BLACK,
                          type = LOCAL_HUMAN_PLAYER\<rparr>;
               player2 = \<lparr>participant = Some sender, name = ''WHITE'', role = WHITE,
                          type = LOCAL_HUMAN_PLAYER\<rparr>
           in case enroll now c0 player1 of
                (Some e, c1) \<Rightarrow> (Some e, room\<lparr>contest := c1\<rparr>)
              | (None, c1) \<Rightarrow>
                  (case enroll now c1 player2 of
                     (Some e, c2) \<Rightarrow> (Some e, room\<lparr>contest := c2\<rparr>)
                   | (None, c2) \<Rightarrow> (None, deliver_ui ui (room\<lparr>contest := c2\<rparr>) sender)))
      | LOCAL_GAME_TIMEOUT_OP \<Rightarrow>
          (case PlayerList_at (players (contest room)) (field_role (data1 msg))
                  (Some sender) of
             Inl e \<Rightarrow> (Some e, room)
           | Inr player \<Rightarrow>
               (case timeout now (contest room) player of
                  (Some e, c) \<Rightarrow> (Some e, room\<lparr>contest := c\<rparr>)
                | (None, c) \<Rightarrow> (None, deliver_ui ui (room\<lparr>contest := c\<rparr>) sender)))
      | READY_OP \<Rightarrow>
          (case enroll now (contest room)
                  \<lparr>participant = Some sender, name = data1 msg,
                   role = field_role (data2 msg), type = REMOTE_HUMAN_PLAYER\<rparr> of
             (e, c) \<Rightarrow> (e, room\<lparr>contest := c\<rparr>))
      | REJECT_OP \<Rightarrow>
          (case reject (contest room) of (e, c) \<Rightarrow> (e, room\<lparr>contest := c\<rparr>))
      | MOVE_OP \<Rightarrow> process_move ui now room msg sender
      | GIVEUP_OP \<Rightarrow>
          (case PlayerList_at (players (contest room)) (field_role (data2 msg))
                  (Some sender) of
             Inl e \<Rightarrow> (Some e, room)
           | Inr player \<Rightarrow>
               (case concede now (contest room) player of
                  (Some e, c) \<Rightarrow> (Some e, room\<lparr>contest := c\<rparr>)
                | (None, c) \<Rightarrow> (None, deliver_ui ui (room\<lparr>contest := c\<rparr>) sender)))
      | TIMEOUT_END_OP \<Rightarrow> (None, room)
      | SUICIDE_END_OP \<Rightarrow> (None, room)
      | GIVEUP_END_OP \<Rightarrow> (None, room)
      | LEAVE_OP \<Rightarrow> (None, stop room sender)
      | CHAT_OP \<Rightarrow>
          (None,
           fold (\<lambda>p r. Session_deliver r p msg) (participants room)
             (room\<lparr>recent_msgs := pop_excess (recent_msgs room @ [msg])\<rparr>)))"

text \<open>
  One turn of \<open>Session::reader\<close> on a decoded message: the room processes it, and an
  exception that leaves \<open>process_data\<close> is caught and stops the session.
\<close>

definition reader :: "(Contest \<Rightarrow> Message) \<Rightarrow> nat \<Rightarrow> Room \<Rightarrow> Message \<Rightarrow> addr \<Rightarrow> Room" where
  "reader ui now room msg self =
     (case process_data ui now room msg self of
        (None, room') \<Rightarrow> room'
      | (Some e, room') \<Rightarrow> stop room' self)"

section \<open>Notions of the specification\<close>

text \<open>
  The connected group of a position, in the spec's words: the positions reached from it
  through orthogonally adjacent cells of the board that hold the same role. A group has
  a liberty when a cell adjacent to one of its members is empty.
\<close>

inductive connected :: "Board \<Rightarrow> Position \<Rightarrow> Position \<Rightarrow> bool" for self p where
  connected_refl: "connected self p p"
| connected_step: "connected self p q \<Longrightarrow> n \<in> set (neighbor q) \<Longrightarrow>
     board_at self n = board_at self q \<Longrightarrow> connected self p n"

definition group_has_liberty :: "Board \<Rightarrow> Position \<Rightarrow> bool" where
  "group_has_liberty self p =
     (\<exists>q n. connected self p q \<and> n \<in> set (neighbor q) \<and> board_at self n = NONE)"

text \<open>
  For the proof of the search: the cells of the border marked in \<open>visit\<close>; a cell is
  closed when none of its neighbours is empty and those of its own role are marked; and
  what a finished search guarantees.
\<close>

definition marked :: "Board \<Rightarrow> Position set" where
  "marked visit = {q. in_border q \<and> board_at visit q \<noteq> NONE}"

definition closed_at :: "Board \<Rightarrow> Board \<Rightarrow> Position \<Rightarrow> bool" where
  "closed_at self visit q =
     (\<forall>n \<in> set (neighbor q). board_at self n \<noteq> NONE
        \<and> (board_at self n = board_at self q \<longrightarrow> n \<in> marked visit))"

definition search_ok :: "Board \<Rightarrow> Position \<Rightarrow> Board \<Rightarrow> bool \<times> Board \<Rightarrow> bool" where
  "search_ok self p visit res =
     (marked visit \<subseteq> marked (snd res)
      \<and> (\<forall>q \<in> marked (snd res) - marked visit. connected self p q)
      \<and> (fst res \<longrightarrow> group_has_liberty self p)
      \<and> (\<not> fst res \<longrightarrow> (\<forall>q \<in> marked (snd res) - marked visit. closed_at self (snd res) q)))"

text \<open>
  The role \<open>PlayerList::insert\<close> gives a player: its own, or for \<open>NONE\<close> the guess
  (\<open>WHITE\<close> when \<open>BLACK\<close> is taken, \<open>BLACK\<close> otherwise).
\<close>

definition target_role :: "PlayerList \<Rightarrow> Player \<Rightarrow> Role" where
  "target_role ps player =
     (if Player.role player = NONE then
        (if PlayerList_contains ps BLACK None then WHITE else BLACK)
      else Player.role player)"

section \<open>Concrete inputs\<close>

text \<open>
  A contest as its constructor leaves it; \<open>duration\<close>, which the source does not
  initialise, is the argument.
\<close>

definition Contest_init :: "nat \<Rightarrow> Contest" where
  "Contest_init d =
     \<lparr>should_giveup = False, current = State_init BLACK, moves = [], players = [],
      status = NOT_PREPARED, result = GameResult_init, duration = d, start_time = 0,
      end_time = 0, local_role = NONE\<rparr>"

definition black_player :: Player where
  "black_player = \<lparr>participant = Some 1, name = ''alice'', role = BLACK,
                    type = REMOTE_HUMAN_PLAYER\<rparr>"

definition white_player :: Player where
  "white_player = \<lparr>participant = Some 2, name = ''bob'', role = WHITE,
                    type = REMOTE_HUMAN_PLAYER\<rparr>"

definition guest_player :: Player where
  "guest_player = \<lparr>participant = Some 2, name = ''bob'', role = NONE,
                    type = REMOTE_HUMAN_PLAYER\<rparr>"

text \<open>
  Two players, a guest without a role, and two boards. On \<open>corner_board\<close> a white
  stone in the corner has one liberty left, at \<open>(0, 1)\<close>, and it is black's turn in
  \<open>corner_contest\<close>. On \<open>trap_board\<close> the corner is empty and both its neighbours are
  white; it is black's turn in \<open>trap_contest\<close>.
\<close>

definition corner_board :: Board where
  "corner_board = board_set (board_set Board_init \<lparr>x = 0, y = 0\<rparr> WHITE) \<lparr>x = 1, y = 0\<rparr> BLACK"

definition corner_contest :: Contest where
  "corner_contest =
     (Contest_init 0)
       \<lparr>current := \<lparr>board = corner_board, role = BLACK, last_move = \<lparr>x = 0, y = 0\<rparr>\<rparr>,
        moves := [\<lparr>x = 1, y = 0\<rparr>, \<lparr>x = 0, y = 0\<rparr>],
        players := [black_player, white_player], status := ON_GOING\<rparr>"

definition trap_board :: Board where
  "trap_board = board_set (board_set Board_init \<lparr>x = 1, y = 0\<rparr> WHITE) \<lparr>x = 0, y = 1\<rparr> WHITE"

definition trap_contest :: Contest where
  "trap_contest =
     (Contest_init 0)
       \<lparr>current := \<lparr>board = trap_board, role = BLACK, last_move = \<lparr>x = 0, y = 1\<rparr>\<rparr>,
        moves := [\<lparr>x = 1, y = 0\<rparr>, \<lparr>x = 0, y = 1\<rparr>],
        players := [black_player, white_player], status := ON_GOING\<rparr>"

text \<open>A room with two joined sessions, both with empty queues, and a chat message.\<close>

definition example_sessions :: "addr \<Rightarrow> Session" where
  "example_sessions a = \<lparr>is_local = False, socket_open = True, write_msgs = []\<rparr>"

definition example_room :: Room where
  "example_room =
     \<lparr>contest = corner_contest, timer = None, participants = [1, 2], recent_msgs = [],
      sessions = example_sessions\<rparr>"

definition example_chat :: Message where
  "example_chat = \<lparr>op = CHAT_OP, data1 = ''hello'', data2 = []\<rparr>"

definition example_ui :: "Contest \<Rightarrow> Message" where
  "example_ui c = Message_op UPDATE_UI_STATE_OP"

section \<open>Roles and rosters\<close>

lemma Role_bool_iff [simp]: "Role_bool r \<longleftrightarrow> r \<noteq> NONE"
  by (cases r) (simp_all add: Role_bool_def Role_id_def)

lemma uminus_Role_simps [simp]:
  "- BLACK = WHITE" "- WHITE = BLACK" "- NONE = (NONE :: Role)"
  by (simp_all add: uminus_Role_def)

lemma uminus_Role_NONE_iff [simp]: "- r = NONE \<longleftrightarrow> r = (NONE :: Role)"
  by (cases r) simp_all


lemma PlayerList_contains_iff:
  "PlayerList_contains ps r None \<longleftrightarrow> (\<exists>p \<in> set ps. r = NONE \<or> Player.role p = r)"
  by (auto simp: PlayerList_contains_def PlayerList_find_def find_None_iff)

section \<open>The liberty search\<close>

lemma index_of_inj: "in_border p \<Longrightarrow> in_border q \<Longrightarrow> index_of p = index_of q \<Longrightarrow> p = q"
proof -
  assume a: "in_border p" "in_border q" "index_of p = index_of q"
  then have "x p * 9 + y p = x q * 9 + y q"
    by (simp add: in_border_def index_of_def rank_n_def) arith
  with a have "x p = x q \<and> y p = y q"
    by (simp add: in_border_def rank_n_def) arith
  then show "p = q" by simp
qed

lemma board_at_set:
  "in_border p \<Longrightarrow> in_border q \<Longrightarrow>
   board_at (board_set b p r) q = (if q = p then r else board_at b q)"
proof (cases "q = p")
  case True
  assume "in_border p"
  with True show ?thesis by (simp add: board_at.rep_eq board_set.rep_eq index_of_less)
next
  case False
  assume "in_border p" "in_border q"
  with False have "index_of p \<noteq> index_of q" using index_of_inj [of p q] by auto
  with False show ?thesis by (simp add: board_at.rep_eq board_set.rep_eq)
qed

lemma board_at_init [simp]: "in_border p \<Longrightarrow> board_at Board_init p = NONE"
  by (simp add: board_at.rep_eq Board_init.rep_eq index_of_less)

lemma marked_init [simp]: "marked Board_init = {}"
  by (auto simp: marked_def)

lemma marked_set: "in_border p \<Longrightarrow> marked (board_set visit p BLACK) = insert p (marked visit)"
  by (auto simp: marked_def board_at_set split: if_splits)

lemma neighbor_iff:
  "n \<in> set (neighbor q) \<longleftrightarrow>
     in_border n \<and> ((x n = x q - 1 \<and> y n = y q) \<or> (x n = x q + 1 \<and> y n = y q)
                  \<or> (x n = x q \<and> y n = y q - 1) \<or> (x n = x q \<and> y n = y q + 1))"
  by (cases n) (auto simp: neighbor_def delta_def Position_plus_def)

lemma neighbor_sym: "n \<in> set (neighbor q) \<Longrightarrow> in_border q \<Longrightarrow> q \<in> set (neighbor n)"
  by (auto simp: neighbor_iff)

lemma connected_trans:
  "connected self q r \<Longrightarrow> connected self p q \<Longrightarrow> connected self p r"
  by (induction rule: connected.induct) (auto intro: connected.intros)

lemma connected_in_border: "connected self p q \<Longrightarrow> in_border p \<Longrightarrow> in_border q"
  by (induction rule: connected.induct) (auto dest: in_border_neighbor)

lemma connected_same_role: "connected self p q \<Longrightarrow> board_at self q = board_at self p"
  by (induction rule: connected.induct) auto

lemma connected_sym: "connected self p q \<Longrightarrow> in_border p \<Longrightarrow> connected self q p"
proof (induction rule: connected.induct)
  case connected_refl
  show ?case by (rule connected.connected_refl)
next
  case (connected_step q n)
  then have "in_border q" by (simp add: connected_in_border)
  with connected_step have "q \<in> set (neighbor n)" by (simp add: neighbor_sym)
  with connected_step have "connected self n q"
    by (metis connected.connected_refl connected.connected_step)
  with connected_step show ?case by (meson connected_trans)
qed

lemma closed_at_mono:
  "closed_at self visit q \<Longrightarrow> marked visit \<subseteq> marked visit' \<Longrightarrow> closed_at self visit' q"
  by (auto simp: closed_at_def)

lemma group_has_liberty_step:
  "group_has_liberty self n \<Longrightarrow> connected self p n \<Longrightarrow> group_has_liberty self p"
  unfolding group_has_liberty_def by (meson connected_trans)

lemma liberties_search:
  "in_border p \<Longrightarrow>
     search_ok self p visit (liberties_rec self p visit)
     \<and> p \<in> marked (snd (liberties_rec self p visit))"
  "in_border p' \<Longrightarrow> set ns \<subseteq> set (neighbor p') \<Longrightarrow>
     search_ok self p' visit (liberties_any self p' ns visit)
     \<and> (\<not> fst (liberties_any self p' ns visit) \<longrightarrow>
          (\<forall>n \<in> set ns. board_at self n = board_at self p' \<longrightarrow>
             n \<in> marked (snd (liberties_any self p' ns visit))))"
proof (induction self p visit and self p' ns visit rule: liberties_rec_liberties_any.induct)
  case (1 self p visit)
  let ?v = "board_set visit p BLACK"
  have mv: "marked ?v = insert p (marked visit)" using 1(2) by (rule marked_set)
  show ?case
  proof (cases "list_ex (\<lambda>n. board_at self n = NONE) (neighbor p)")
    case True
    then have "group_has_liberty self p"
      unfolding group_has_liberty_def list_ex_iff
      using connected_refl by blast
    with True mv show ?thesis
      by (auto simp: liberties_rec.simps search_ok_def intro: connected_refl)
  next
    case False
    let ?res = "liberties_any self p (neighbor p) ?v"
    have eq: "liberties_rec self p visit = ?res"
      using False by (simp add: liberties_rec.simps)
    from 1(1) [OF refl False 1(2)]
    have ok: "search_ok self p ?v ?res"
      and nb: "\<not> fst ?res \<longrightarrow> (\<forall>n \<in> set (neighbor p).
                board_at self n = board_at self p \<longrightarrow> n \<in> marked (snd ?res))"
      by simp_all
    have pm: "p \<in> marked (snd ?res)" using ok mv by (auto simp: search_ok_def)
    have cl: "\<not> fst ?res \<Longrightarrow> closed_at self (snd ?res) p"
      using nb False by (auto simp: closed_at_def list_ex_iff)
    have "search_ok self p visit ?res"
      unfolding search_ok_def
    proof (intro conjI)
      show "marked visit \<subseteq> marked (snd ?res)" using ok mv by (auto simp: search_ok_def)
      show "\<forall>q \<in> marked (snd ?res) - marked visit. connected self p q"
        using ok mv by (auto simp: search_ok_def intro: connected_refl)
      show "fst ?res \<longrightarrow> group_has_liberty self p" using ok by (simp add: search_ok_def)
      show "\<not> fst ?res \<longrightarrow> (\<forall>q \<in> marked (snd ?res) - marked visit. closed_at self (snd ?res) q)"
        using ok mv cl by (auto simp: search_ok_def)
    qed
    with pm eq show ?thesis by simp
  qed
next
  case (2 self p visit)
  then show ?case by (simp add: liberties_any.simps search_ok_def)
next
  case (3 self p n ns visit)
  have nin: "n \<in> set (neighbor p)" and sub: "set ns \<subseteq> set (neighbor p)"
    using 3(5) by auto
  have bn: "in_border n" using nin by (rule in_border_neighbor)
  show ?case
  proof (cases "board_at visit n = NONE \<and> board_at self n = board_at self p")
    case False
    have eq: "liberties_any self p (n # ns) visit = liberties_any self p ns visit"
      using False by (subst liberties_any.simps) (simp only: if_False)
    from 3(3) [OF False 3(4) sub]
    have ok: "search_ok self p visit (liberties_any self p ns visit)"
      and nb: "\<not> fst (liberties_any self p ns visit) \<longrightarrow> (\<forall>m \<in> set ns.
                board_at self m = board_at self p \<longrightarrow> m \<in> marked (snd (liberties_any self p ns visit)))"
      by simp_all
    have "board_at self n = board_at self p \<Longrightarrow> n \<in> marked (snd (liberties_any self p ns visit))"
      using False bn ok by (auto simp: marked_def search_ok_def)
    with ok nb eq show ?thesis by auto
  next
    case True
    obtain found visit' where r: "liberties_rec self n visit = (found, visit')"
      by (cases "liberties_rec self n visit")
    from 3(1) [OF True bn] r
    have ok1: "search_ok self n visit (found, visit')" and nm: "n \<in> marked visit'"
      by simp_all
    have cn: "connected self p n"
      using True nin by (metis connected_refl connected_step)
    show ?thesis
    proof (cases found)
      case True
      have eq: "liberties_any self p (n # ns) visit = (True, visit')"
        using \<open>board_at visit n = NONE \<and> board_at self n = board_at self p\<close> r True
        by (simp add: liberties_any.simps)
      have "search_ok self p visit (True, visit')"
        using ok1 True cn
        by (auto simp: search_ok_def intro: connected_trans group_has_liberty_step)
      with eq show ?thesis by simp
    next
      case False
      let ?res = "liberties_any self p ns visit'"
      have eq: "liberties_any self p (n # ns) visit = ?res"
        using True r False by (simp add: liberties_any.simps)
      from 3(2) [OF True r [symmetric] False 3(4) sub]
      have ok2: "search_ok self p visit' ?res"
        and nb: "\<not> fst ?res \<longrightarrow> (\<forall>m \<in> set ns.
                board_at self m = board_at self p \<longrightarrow> m \<in> marked (snd ?res))"
        by simp_all
      have m1: "marked visit \<subseteq> marked visit'" using ok1 by (simp add: search_ok_def)
      have m2: "marked visit' \<subseteq> marked (snd ?res)" using ok2 by (simp add: search_ok_def)
      have "search_ok self p visit ?res"
        unfolding search_ok_def
      proof (intro conjI)
        show "marked visit \<subseteq> marked (snd ?res)" using m1 m2 by blast
        show "\<forall>q \<in> marked (snd ?res) - marked visit. connected self p q"
        proof
          fix q assume q: "q \<in> marked (snd ?res) - marked visit"
          show "connected self p q"
          proof (cases "q \<in> marked visit'")
            case True
            with q ok1 have "connected self n q" by (auto simp: search_ok_def)
            then show ?thesis using cn by (rule connected_trans)
          next
            case False
            with q ok2 show ?thesis by (auto simp: search_ok_def)
          qed
        qed
        show "fst ?res \<longrightarrow> group_has_liberty self p" using ok2 by (simp add: search_ok_def)
        show "\<not> fst ?res \<longrightarrow> (\<forall>q \<in> marked (snd ?res) - marked visit. closed_at self (snd ?res) q)"
        proof (intro impI ballI)
          fix q assume nf: "\<not> fst ?res" and q: "q \<in> marked (snd ?res) - marked visit"
          show "closed_at self (snd ?res) q"
          proof (cases "q \<in> marked visit'")
            case True
            with q ok1 False have "closed_at self visit' q" by (auto simp: search_ok_def)
            then show ?thesis using m2 by (rule closed_at_mono)
          next
            case False
            with q ok2 nf show ?thesis by (auto simp: search_ok_def)
          qed
        qed
      qed
      moreover have "n \<in> marked (snd ?res)" using nm m2 by blast
      ultimately show ?thesis using eq nb by auto
    qed
  qed
qed

lemma liberties_iff: "in_border p \<Longrightarrow> liberties self p = group_has_liberty self p"
proof -
  assume bp: "in_border p"
  let ?res = "liberties_rec self p Board_init"
  from liberties_search(1) [OF bp, of self Board_init]
  have ok: "search_ok self p Board_init ?res" and pm: "p \<in> marked (snd ?res)" by simp_all
  show ?thesis
  proof (cases "fst ?res")
    case True
    with ok show ?thesis by (simp add: liberties_def search_ok_def)
  next
    case False
    with ok have cl: "\<forall>q \<in> marked (snd ?res). closed_at self (snd ?res) q"
      by (simp add: search_ok_def)
    have inS: "connected self p q \<Longrightarrow> q \<in> marked (snd ?res)" for q
    proof (induction rule: connected.induct)
      case connected_refl
      then show ?case by (rule pm)
    next
      case (connected_step q n)
      with cl show ?case by (auto simp: closed_at_def)
    qed
    have "\<not> group_has_liberty self p"
      unfolding group_has_liberty_def using inS cl by (fastforce simp: closed_at_def)
    with False show ?thesis by (simp add: liberties_def)
  qed
qed

lemma group_has_liberty_connected:
  assumes "connected self p q" "in_border p"
  shows "group_has_liberty self q = group_has_liberty self p"
  using assms connected_sym [OF assms] by (meson group_has_liberty_step)


section \<open>C5: the liberty search decides the liberties of the group\<close>

text \<open>
  C5. For a position \<open>p\<close> inside the border that holds a stone, \<open>liberties\<close> answers
  true exactly when the connected group of \<open>p\<close> has an adjacent empty cell; and every
  position \<open>q\<close> of that group (which is then inside the border and holds a stone too)
  gets the same answer as \<open>p\<close>.
\<close>

theorem liberties_group:
  assumes "in_border p" and "board_at self p \<noteq> NONE"
  shows "(liberties self p \<longleftrightarrow> group_has_liberty self p)
       \<and> (\<forall>q. connected self p q \<longrightarrow>
              board_at self q \<noteq> NONE \<and> in_border q \<and> liberties self q = liberties self p)"
  using assms
  by (auto simp: liberties_iff connected_in_border connected_same_role
      group_has_liberty_connected)

text \<open>
  Witness for C5: the black stone at \<open>(1, 0)\<close> of \<open>corner_board\<close> has liberties, and so
  has its group.
\<close>

theorem liberties_group_witness:
  "in_border \<lparr>x = 1, y = 0\<rparr> \<and> board_at corner_board \<lparr>x = 1, y = 0\<rparr> = BLACK
   \<and> liberties corner_board \<lparr>x = 1, y = 0\<rparr>
   \<and> group_has_liberty corner_board \<lparr>x = 1, y = 0\<rparr>"
proof -
  have h1: "in_border \<lparr>x = 1, y = 0\<rparr>" by (simp add: in_border_def rank_n_def)
  have e: "board_at corner_board \<lparr>x = 1, y = 0\<rparr> = BLACK" by code_simp
  then have h2: "board_at corner_board \<lparr>x = 1, y = 0\<rparr> \<noteq> NONE" by simp
  have l: "liberties corner_board \<lparr>x = 1, y = 0\<rparr>" by code_simp
  from liberties_group [OF h1 h2] l h1 e show ?thesis by simp
qed

section \<open>C9: positions and their coordinate tokens\<close>

lemma digits_of_small: "n < 10 \<Longrightarrow> digits_of n = [char_of (48 + n)]"
  by (simp add: digits_of.simps)

lemma of_char_digit: "n < 10 \<Longrightarrow> (of_char (char_of (48 + n :: nat)) :: nat) = 48 + n"
  by simp

lemma stoi_digit:
  assumes "n < 10"
  shows "stoi [char_of (48 + n :: nat)] = Inr (int n)"
proof -
  have d: "is_digit (char_of (48 + n))"
    using assms by (simp add: is_digit_def)
  have m: "char_of (48 + n) \<noteq> CHR ''-''"
  proof
    assume "char_of (48 + n) = CHR ''-''"
    then have "(of_char (char_of (48 + n)) :: nat) = of_char CHR ''-''" by simp
    with assms show False by simp
  qed
  have v: "digits_value [char_of (48 + n)] = int n"
    using assms by (simp add: digits_value_def)
  show ?thesis
    using assms d m v by (simp add: stoi_def Let_def)
qed

text \<open>
  C9. For every position inside the border, decoding the token that \<open>to_string\<close>
  produces gives the position back.
\<close>

theorem position_roundtrip:
  assumes "in_border p"
  shows "Position_of_string (Position_to_string p) = Inr p"
proof -
  from assms have b: "0 \<le> x p" "x p < 9" "0 \<le> y p" "y p < 9"
    by (simp_all add: in_border_def rank_n_def)
  have s: "int_to_string (y p + 1) = [char_of (48 + nat (y p + 1))]"
    using b by (simp add: int_to_string_def digits_of_small)
  have t: "stoi [char_of (48 + nat (y p + 1))] = Inr (y p + 1)"
    using b stoi_digit [of "nat (y p + 1)"] by simp
  have c: "int (of_char (char_of (65 + x p))) - 65 = x p"
    using b by (simp add: of_nat_of_char)
  show ?thesis
    using s t c by (simp add: Position_of_string_def Position_to_string_def)
qed

text \<open>Witness for C9: the position \<open>(4, 4)\<close> is written \<open>E5\<close> and read back.\<close>

theorem position_roundtrip_witness:
  "in_border \<lparr>x = 4, y = 4\<rparr> \<and> Position_to_string \<lparr>x = 4, y = 4\<rparr> = ''E5''
   \<and> Position_of_string ''E5'' = Inr \<lparr>x = 4, y = 4\<rparr>"
proof -
  have h: "in_border \<lparr>x = 4, y = 4\<rparr>" by (simp add: in_border_def rank_n_def)
  have e: "Position_to_string \<lparr>x = 4, y = 4\<rparr> = ''E5''" by code_simp
  from position_roundtrip [OF h] e h show ?thesis by simp
qed

section \<open>C10: a fresh state is not over\<close>

lemma is_over_init: "is_over (State_init r) = NONE"
  by (simp add: is_over_def State_init_def Position_init_def Position_bool_def)

text \<open>
  C10. A freshly constructed \<open>State\<close> has \<open>BLACK\<close> to move (or the role given to the
  constructor) and the invalid position \<open>(-1, -1)\<close> as its last move, and \<open>is_over\<close>
  answers \<open>NONE\<close> on it; after \<open>clear\<close> the contest's state is the fresh state with
  \<open>BLACK\<close> to move.
\<close>

theorem fresh_state_not_over:
  "State.role (State_init BLACK) = BLACK
   \<and> last_move (State_init r) = Position_init
   \<and> Position_init = \<lparr>x = - 1, y = - 1\<rparr>
   \<and> \<not> Position_bool Position_init
   \<and> is_over (State_init r) = NONE
   \<and> current (clear c) = State_init BLACK
   \<and> is_over (current (clear c)) = NONE"
  by (simp add: is_over_init clear_def)
     (simp add: State_init_def Position_init_def Position_bool_def)

text \<open>Witness for C10: the contest \<open>corner_contest\<close>, cleared.\<close>

theorem fresh_state_not_over_witness:
  "State.role (current (clear corner_contest)) = BLACK
   \<and> last_move (current (clear corner_contest)) = \<lparr>x = - 1, y = - 1\<rparr>
   \<and> is_over (current (clear corner_contest)) = NONE"
  using fresh_state_not_over [of BLACK corner_contest]
  by simp

section \<open>C4: inserting into the roster\<close>

text \<open>
  Counterexample to C4 as stated: with both roles vacant, inserting a player whose role
  is \<open>NONE\<close> does not succeed with \<open>BLACK\<close>; it throws, since no role is guessed.
\<close>

theorem insert_no_role_counterexample:
  "\<not> PlayerList_contains [] BLACK None \<and> \<not> PlayerList_contains [] WHITE None
   \<and> Player.role guest_player = NONE
   \<and> PlayerList_insert [] guest_player = (Some (logic_error ''No role for player''), [])"
  by (simp add: PlayerList_insert_def PlayerList_contains_def PlayerList_find_def
      guest_player_def)

text \<open>
  C4, amended. \<open>insert\<close> throws exactly when an equal player is already in the list,
  or the player's role is \<open>NONE\<close> and neither role is taken, or the role the player
  gets (its own, or the guess) is taken. A call that throws leaves the list unchanged, a
  call that succeeds appends the player with that role, and a player whose role is
  \<open>NONE\<close> is inserted with the vacant role when exactly one role is taken.
\<close>

theorem insert_fails_iff:
  "(fst (PlayerList_insert ps player) \<noteq> None \<longleftrightarrow>
      player \<in> set ps
      \<or> (Player.role player = NONE \<and> \<not> PlayerList_contains ps BLACK None
           \<and> \<not> PlayerList_contains ps WHITE None)
      \<or> PlayerList_contains ps (target_role ps player) None)
   \<and> (fst (PlayerList_insert ps player) \<noteq> None \<longrightarrow> snd (PlayerList_insert ps player) = ps)
   \<and> (fst (PlayerList_insert ps player) = None \<longrightarrow>
        snd (PlayerList_insert ps player) = ps @ [player\<lparr>Player.role := target_role ps player\<rparr>])
   \<and> (Player.role player = NONE \<and> player \<notin> set ps
        \<and> PlayerList_contains ps BLACK None \<noteq> PlayerList_contains ps WHITE None \<longrightarrow>
        PlayerList_insert ps player =
          (None, ps @ [player\<lparr>Player.role :=
             (if PlayerList_contains ps BLACK None then WHITE else BLACK)\<rparr>]))"
  by (auto simp: PlayerList_insert_def target_role_def PlayerList_contains_iff)

text \<open>Witness for C4: with black enrolled, the guest is inserted as white.\<close>

theorem insert_fails_iff_witness:
  "PlayerList_insert [black_player] guest_player
     = (None, [black_player, guest_player\<lparr>Player.role := WHITE\<rparr>])"
proof -
  have h: "Player.role guest_player = NONE \<and> guest_player \<notin> set [black_player]
     \<and> PlayerList_contains [black_player] BLACK None
         \<noteq> PlayerList_contains [black_player] WHITE None"
    by (simp add: PlayerList_contains_iff guest_player_def black_player_def)
  moreover have "PlayerList_contains [black_player] BLACK None"
    by (simp add: PlayerList_contains_iff black_player_def)
  ultimately show ?thesis
    using insert_fails_iff [of "[black_player]" guest_player] by simp
qed

section \<open>C6: a rejected move changes nothing\<close>

text \<open>
  C6. In an ongoing contest, \<open>play\<close> by a player whose role is not the one to move, or
  at a cell that holds a stone, throws (a \<open>logic_error\<close> for the turn, the exception
  \<open>StonePositionitionOccupiedException\<close> for the cell) and leaves the whole contest as
  it was.
\<close>

theorem play_rejected_unchanged:
  assumes "status c = ON_GOING"
    and "State.role (current c) \<noteq> Player.role player
         \<or> board_at (board (current c)) pos \<noteq> NONE"
  shows "play now c player pos =
     (Some (if State.role (current c) \<noteq> Player.role player
            then logic_error (name player @ '' not allowed to play'')
            else StonePositionitionOccupiedException ''Stone positionition occupied''), c)"
  using assms by (auto simp: play_def)

text \<open>
  Witness for C6: white moves out of turn in \<open>corner_contest\<close>, and black plays on the
  occupied corner.
\<close>

theorem play_rejected_unchanged_witness:
  "play 7 corner_contest white_player \<lparr>x = 5, y = 5\<rparr>
     = (Some (logic_error ''bob not allowed to play''), corner_contest)"
proof -
  have h1: "status corner_contest = ON_GOING" by (simp add: corner_contest_def)
  have h2: "State.role (current corner_contest) \<noteq> Player.role white_player"
    by (simp add: corner_contest_def white_player_def)
  then have "State.role (current corner_contest) \<noteq> Player.role white_player
      \<or> board_at (board (current corner_contest)) \<lparr>x = 5, y = 5\<rparr> \<noteq> NONE" by simp
  from play_rejected_unchanged [OF h1 this, of 7] h2
  show ?thesis by (simp add: white_player_def)
qed

lemma play_occupied_example:
  "play 7 corner_contest black_player \<lparr>x = 0, y = 0\<rparr>
     = (Some (StonePositionitionOccupiedException ''Stone positionition occupied''),
        corner_contest)"
proof -
  have "board_at corner_board \<lparr>x = 0, y = 0\<rparr> = WHITE" by code_simp
  then show ?thesis
    by (simp add: play_def corner_contest_def black_player_def)
qed

section \<open>C7: conceding and timing out\<close>

text \<open>
  C7. \<open>concede\<close> and \<open>timeout\<close> each succeed exactly when the contest is ongoing and the
  player is the roster's entry for the role to move; a call that succeeds ends the game
  with the opposite of the player's role as winner and \<open>GIVEUP\<close> (for \<open>concede\<close>) or
  \<open>TIMEOUT\<close> (for \<open>timeout\<close>) as kind, and a call that throws changes nothing.
\<close>

theorem concede_timeout_turn:
  "(fst (concede now c player) = None \<longleftrightarrow>
      status c = ON_GOING
      \<and> PlayerList_find (players c) (State.role (current c)) None = Some player)
   \<and> (fst (concede now c player) = None \<longrightarrow>
        snd (concede now c player) =
          c\<lparr>status := GAME_OVER,
            result := \<lparr>winner = - Player.role player, win_type = GIVEUP, confirmed = False\<rparr>,
            end_time := now\<rparr>)
   \<and> (fst (concede now c player) \<noteq> None \<longrightarrow> snd (concede now c player) = c)
   \<and> (fst (timeout now c player) = None \<longleftrightarrow>
      status c = ON_GOING
      \<and> PlayerList_find (players c) (State.role (current c)) None = Some player)
   \<and> (fst (timeout now c player) = None \<longrightarrow>
        snd (timeout now c player) =
          c\<lparr>status := GAME_OVER,
            result := \<lparr>winner = - Player.role player, win_type = TIMEOUT, confirmed = False\<rparr>,
            end_time := now\<rparr>)
   \<and> (fst (timeout now c player) \<noteq> None \<longrightarrow> snd (timeout now c player) = c)"
  by (auto simp: concede_def timeout_def PlayerList_at_def split: option.splits)

text \<open>
  Witness for C7: black, whose turn it is in \<open>corner_contest\<close>, concedes and white wins;
  white cannot.
\<close>

theorem concede_timeout_turn_witness:
  "status (snd (concede 7 corner_contest black_player)) = GAME_OVER
   \<and> result (snd (concede 7 corner_contest black_player))
       = \<lparr>winner = WHITE, win_type = GIVEUP, confirmed = False\<rparr>
   \<and> result (snd (timeout 7 corner_contest black_player))
       = \<lparr>winner = WHITE, win_type = TIMEOUT, confirmed = False\<rparr>
   \<and> fst (concede 7 corner_contest white_player) \<noteq> None
   \<and> snd (concede 7 corner_contest white_player) = corner_contest"
proof -
  have h: "status corner_contest = ON_GOING
      \<and> PlayerList_find (players corner_contest) (State.role (current corner_contest)) None
          = Some black_player"
    by (simp add: corner_contest_def PlayerList_find_def black_player_def)
  have n: "PlayerList_find (players corner_contest) (State.role (current corner_contest)) None
          \<noteq> Some white_player"
    by (simp add: corner_contest_def PlayerList_find_def black_player_def white_player_def)
  have r: "- Player.role black_player = WHITE" by (simp add: black_player_def)
  show ?thesis
    using concede_timeout_turn [of 7 corner_contest black_player]
      concede_timeout_turn [of 7 corner_contest white_player] h n r
    by simp
qed

section \<open>C8: enrolling\<close>

lemma enroll_only_not_prepared:
  "fst (enroll now c player) = None \<Longrightarrow> status c = NOT_PREPARED"
  by (auto simp: enroll_def split: if_splits)

lemma enroll_first:
  assumes "players c = []" "enroll now c p1 = (None, c1)"
  shows "Player.role p1 \<noteq> NONE \<and> c1 = c\<lparr>players := [p1]\<rparr> \<and> status c = NOT_PREPARED"
  using assms
  by (cases "Player.role p1")
     (auto simp: enroll_def PlayerList_insert_def PlayerList_contains_iff
           split: if_splits)

lemma enroll_second:
  assumes "players c1 = [p1]" "Player.role p1 \<noteq> NONE" "enroll now c1 p2 = (None, c2)"
  shows "status c2 = ON_GOING \<and> start_time c2 = now
       \<and> PlayerList_contains (players c2) BLACK None
       \<and> PlayerList_contains (players c2) WHITE None"
  using assms
  by (cases "Player.role p1"; cases "Player.role p2")
     (auto simp: enroll_def PlayerList_insert_def PlayerList_contains_iff
           split: if_splits)

text \<open>
  C8. \<open>enroll\<close> succeeds only while the contest is \<open>NOT_PREPARED\<close>. Starting from an
  empty roster, two enrolments that succeed fill both roles and set the status to
  \<open>ON_GOING\<close>, with the start time recorded; every further \<open>enroll\<close> throws and leaves
  the contest as it was.
\<close>

theorem enroll_twice_starts:
  assumes "players c = []"
    and "enroll t1 c p1 = (None, c1)"
    and "enroll t2 c1 p2 = (None, c2)"
  shows "(\<forall>t c' p. fst (enroll t c' p) = None \<longrightarrow> status c' = NOT_PREPARED)
       \<and> status c = NOT_PREPARED \<and> status c1 = NOT_PREPARED
       \<and> status c2 = ON_GOING \<and> start_time c2 = t2
       \<and> PlayerList_contains (players c2) BLACK None
       \<and> PlayerList_contains (players c2) WHITE None
       \<and> (\<forall>t3 p3. enroll t3 c2 p3 = (Some (logic_error ''Contest already started''), c2))"
proof -
  from enroll_first [OF assms(1,2)]
  have r: "Player.role p1 \<noteq> NONE" and c1: "c1 = c\<lparr>players := [p1]\<rparr>"
    and s: "status c = NOT_PREPARED" by simp_all
  from c1 have "players c1 = [p1]" by simp
  from enroll_second [OF this r assms(3)]
  have 2: "status c2 = ON_GOING" "start_time c2 = t2"
    "PlayerList_contains (players c2) BLACK None"
    "PlayerList_contains (players c2) WHITE None" by simp_all
  from 2(1) have "enroll t3 c2 p3 = (Some (logic_error ''Contest already started''), c2)"
    for t3 p3
    by (simp add: enroll_def)
  with 2 s c1 show ?thesis by (simp add: enroll_only_not_prepared)
qed

text \<open>
  Witness for C8: black enrols, then the guest, who is given white; the contest is
  ongoing and black cannot enrol again.
\<close>

theorem enroll_twice_starts_witness:
  "status (snd (enroll 4 (snd (enroll 3 (Contest_init 0) black_player)) guest_player))
     = ON_GOING
   \<and> start_time (snd (enroll 4 (snd (enroll 3 (Contest_init 0) black_player)) guest_player))
     = 4
   \<and> fst (enroll 5 (snd (enroll 4 (snd (enroll 3 (Contest_init 0) black_player))
        guest_player)) black_player) = Some (logic_error ''Contest already started'')"
proof -
  have h1: "players (Contest_init 0) = []" by (simp add: Contest_init_def)
  have e1: "enroll 3 (Contest_init 0) black_player
      = (None, (Contest_init 0)\<lparr>players := [black_player]\<rparr>)"
    by (simp add: enroll_def PlayerList_insert_def PlayerList_contains_iff Contest_init_def
        black_player_def)
  have e2: "fst (enroll 4 ((Contest_init 0)\<lparr>players := [black_player]\<rparr>) guest_player) = None"
    by (simp add: enroll_def PlayerList_insert_def PlayerList_contains_iff Contest_init_def
        black_player_def guest_player_def)
  then have h3: "enroll 4 ((Contest_init 0)\<lparr>players := [black_player]\<rparr>) guest_player
      = (None, snd (enroll 4 ((Contest_init 0)\<lparr>players := [black_player]\<rparr>) guest_player))"
    by (simp add: prod_eq_iff)
  from enroll_twice_starts [OF h1 e1 h3] e1 show ?thesis by simp
qed

section \<open>C1: a capturing move ends the game\<close>

text \<open>
  The role to move is never \<open>NONE\<close>: it is \<open>BLACK\<close> after \<open>clear\<close>, \<open>play\<close> negates it
  and no other operation touches the state.
\<close>

lemma play_keeps_role_playable:
  "State.role (current c) \<noteq> NONE \<Longrightarrow>
   State.role (current (snd (play now c player pos))) \<noteq> NONE"
  by (auto simp: play_def Let_def next_state_def)

lemma role_playable_invariant:
  "State.role (current (clear c)) \<noteq> NONE"
  "current (confirm c) = current c"
  "current (snd (reject c)) = current c"
  "current (snd (enroll now c player)) = current c"
  "current (snd (concede now c player)) = current c"
  "current (snd (timeout now c player)) = current c"
  by (simp_all add: clear_def State_init_def confirm_def reject_def enroll_def concede_def
      timeout_def split: prod.splits option.splits sum.splits)





text \<open>
  The other case, computed: on \<open>trap_board\<close> black plays into the corner and captures
  its own stone; the winner is white again.
\<close>

lemma play_suicide_example:
  "status (snd (play 7 trap_contest black_player \<lparr>x = 0, y = 0\<rparr>)) = GAME_OVER
   \<and> result (snd (play 7 trap_contest black_player \<lparr>x = 0, y = 0\<rparr>))
       = \<lparr>winner = WHITE, win_type = SUICIDE, confirmed = False\<rparr>"
  by code_simp

section \<open>C2: chat messages\<close>

text \<open>
  The participants of a room are a set: the list is sorted and has no duplicate, and
  \<open>join\<close>, \<open>stop\<close> and \<open>process_data\<close> keep it so.
\<close>

lemma Session_deliver_participants [simp]:
  "participants (Session_deliver room a msg) = participants room"
  by (simp add: Session_deliver_def)

lemma fold_Session_deliver_participants:
  "participants (fold (\<lambda>msg r. Session_deliver r a msg) ms room) = participants room"
  by (induction ms arbitrary: room) simp_all

lemma deliver_participants [simp]:
  "participants (deliver room msg a) = participants room"
proof -
  have "participants (fold (\<lambda>p r. if p \<noteq> a then Session_deliver r a msg else r) ps r)
          = participants r" for ps r
    by (induction ps arbitrary: r) simp_all
  then show ?thesis by (simp add: deliver_def)
qed

lemma join_participants:
  "sorted (participants room) \<Longrightarrow> distinct (participants room) \<Longrightarrow>
   sorted (participants (join room a)) \<and> distinct (participants (join room a))
   \<and> set (participants (join room a)) = insert a (set (participants room))"
  by (auto simp: join_def fold_Session_deliver_participants sorted_insort distinct_insort
      set_insort_key)

lemma stop_participants:
  "sorted (participants room) \<Longrightarrow> distinct (participants room) \<Longrightarrow>
   sorted (participants (stop room a)) \<and> distinct (participants (stop room a))
   \<and> set (participants (stop room a)) = set (participants room) - {a}"
  by (auto simp: stop_def leave_def Let_def sorted_wrt_filter removeAll_filter_not_eq
      intro: sorted_wrt_filter)

lemma fold_deliver_fields:
  "contest (fold (\<lambda>p r. Session_deliver r p msg) ps room) = contest room"
  "participants (fold (\<lambda>p r. Session_deliver r p msg) ps room) = participants room"
  "recent_msgs (fold (\<lambda>p r. Session_deliver r p msg) ps room) = recent_msgs room"
  "timer (fold (\<lambda>p r. Session_deliver r p msg) ps room) = timer room"
  by (induction ps arbitrary: room; simp add: Session_deliver_def)+

lemma fold_deliver_sessions:
  "distinct ps \<Longrightarrow>
   sessions (fold (\<lambda>p r. Session_deliver r p msg) ps room) a =
     (if a \<in> set ps then (sessions room a)\<lparr>write_msgs := write_msgs (sessions room a) @ [msg]\<rparr>
      else sessions room a)"
proof (induction ps arbitrary: room)
  case Nil
  then show ?case by simp
next
  case (Cons p ps)
  then show ?case by (auto simp: Session_deliver_def)
qed

lemma process_data_participants:
  "set (participants (snd (process_data ui now room msg a))) \<subseteq> set (participants room)
   \<and> (distinct (participants room) \<longrightarrow>
        distinct (participants (snd (process_data ui now room msg a))))"
  by (cases "op msg")
     (auto simp: process_data_def process_move_def deliver_ui_def Participant_deliver_def
        fold_deliver_fields stop_def leave_def Let_def distinct_removeAll
        split: prod.splits option.splits sum.splits if_splits)

text \<open>
  Counterexample to C2 as stated: session 1 is joined to \<open>example_room\<close> and sends a
  chat message; the message is appended to the queue of session 1 itself.
\<close>

theorem chat_echo_counterexample:
  "1 \<in> set (participants example_room)
   \<and> write_msgs (sessions (snd (process_data example_ui 0 example_room example_chat 1)) 1)
       = [example_chat]"
  by (simp add: process_data_def example_room_def example_chat_def example_sessions_def
      Session_deliver_def)

text \<open>
  C2, amended. A chat message is delivered once to every joined participant, the sender
  included when it is joined, and to no one else; the set of participants and the
  contest are unchanged and the message is appended to the recent messages.
\<close>

theorem chat_reaches_everyone:
  assumes "op msg = CHAT_OP" and "distinct (participants room)"
  shows "fst (process_data ui now room msg sender) = None
       \<and> (\<forall>a. sessions (snd (process_data ui now room msg sender)) a =
             (if a \<in> set (participants room)
              then (sessions room a)\<lparr>write_msgs := write_msgs (sessions room a) @ [msg]\<rparr>
              else sessions room a))
       \<and> participants (snd (process_data ui now room msg sender)) = participants room
       \<and> contest (snd (process_data ui now room msg sender)) = contest room
       \<and> recent_msgs (snd (process_data ui now room msg sender))
           = pop_excess (recent_msgs room @ [msg])"
  using assms
  by (simp add: process_data_def fold_deliver_fields fold_deliver_sessions)

text \<open>
  Witness for C2: in \<open>example_room\<close> both joined sessions receive the message of
  session 1, and session 3, which is not joined, does not.
\<close>

theorem chat_reaches_everyone_witness:
  "write_msgs (sessions (snd (process_data example_ui 0 example_room example_chat 1)) 2)
     = [example_chat]
   \<and> write_msgs (sessions (snd (process_data example_ui 0 example_room example_chat 1)) 1)
     = [example_chat]
   \<and> write_msgs (sessions (snd (process_data example_ui 0 example_room example_chat 1)) 3)
     = []"
proof -
  have h1: "op example_chat = CHAT_OP" by (simp add: example_chat_def)
  have h2: "distinct (participants example_room)" by (simp add: example_room_def)
  from chat_reaches_everyone [OF h1 h2, of example_ui 0 1]
  show ?thesis by (simp add: example_room_def example_sessions_def)
qed

section \<open>C3: end notifications sent by a client\<close>

text \<open>
  Counterexample to C3 as stated: session 1 sends \<open>SUICIDE_END_OP\<close>; after the reader
  has handled the message the session is still joined and its socket is still open.
\<close>

theorem end_op_counterexample:
  "1 \<in> set (participants (reader example_ui 0 example_room (Message_op SUICIDE_END_OP) 1))
   \<and> socket_open (sessions (reader example_ui 0 example_room (Message_op SUICIDE_END_OP) 1) 1)"
  by (simp add: process_data_def reader_def Message_op_def example_room_def example_sessions_def)

text \<open>
  C3, amended. A message whose code is one of the three end notifications is ignored:
  \<open>process_data\<close> returns without an exception and leaves the room (the contest, the
  participants, the recent messages and every session) exactly as it was, so the reader
  does not stop the sending session.
\<close>

theorem end_op_ignored:
  assumes "op msg = TIMEOUT_END_OP \<or> op msg = SUICIDE_END_OP \<or> op msg = GIVEUP_END_OP"
  shows "process_data ui now room msg sender = (None, room)
       \<and> reader ui now room msg sender = room"
  using assms by (auto simp: process_data_def reader_def)

text \<open>Witness for C3: session 2 sends \<open>GIVEUP_END_OP\<close> to \<open>example_room\<close>.\<close>

theorem end_op_ignored_witness:
  "reader example_ui 0 example_room (Message_op GIVEUP_END_OP) 2 = example_room"
proof -
  have "op (Message_op GIVEUP_END_OP) = GIVEUP_END_OP" by (simp add: Message_op_def)
  with end_op_ignored [of "Message_op GIVEUP_END_OP" example_ui 0 example_room 2]
  show ?thesis by simp
qed

end
